theory Spec2Isabelle
  imports Main "HOL-Library.Sublist"
begin

section \<open>Python strings\<close>

text \<open>
  A Python \<open>str\<close> is a sequence of code points.  It is modelled as a \<open>string\<close>
  whose characters are the code points below 256; \<open>length\<close> counts code points.
\<close>

definition TAB :: char where
  "TAB = CHR 0x09"

definition NL :: char where
  "NL = CHR 0x0A"

text \<open>\<open>str.isspace\<close> on one character: the white space of Unicode below 256.\<close>

definition isspace :: "char \<Rightarrow> bool" where
  "isspace c \<longleftrightarrow>
     c \<in> set [CHR 0x09, CHR 0x0A, CHR 0x0B, CHR 0x0C, CHR 0x0D,
               CHR 0x1C, CHR 0x1D, CHR 0x1E, CHR 0x1F, CHR 0x20, CHR 0x85, CHR 0xA0]"

text \<open>\<open>s.strip()\<close>: white space removed at both ends.\<close>

definition strip :: "string \<Rightarrow> string" where
  "strip s = rev (dropWhile isspace (rev (dropWhile isspace s)))"

text \<open>\<open>s.startswith(p)\<close>.\<close>

fun startswith :: "string \<Rightarrow> string \<Rightarrow> bool" where
  "startswith s [] = True"
| "startswith [] (p # ps) = False"
| "startswith (c # cs) (p # ps) = (c = p \<and> startswith cs ps)"

text \<open>\<open>s.split(sep)\<close> for a separator of one character: never an empty list.\<close>

fun split_char :: "char \<Rightarrow> string \<Rightarrow> string list" where
  "split_char sep [] = [[]]"
| "split_char sep (c # cs) =
     (if c = sep then [] # split_char sep cs
      else (case split_char sep cs of
              [] \<Rightarrow> [[c]]
            | w # ws \<Rightarrow> (c # w) # ws))"

text \<open>\<open>sep.join(xs)\<close>.\<close>

fun join :: "string \<Rightarrow> string list \<Rightarrow> string" where
  "join sep [] = []"
| "join sep [x] = x"
| "join sep (x # y # ys) = x @ sep @ join sep (y # ys)"

text \<open>\<open>str(n)\<close> for a natural number: its decimal digits.\<close>

definition digit_char :: "nat \<Rightarrow> char" where
  "digit_char d = ''0123456789'' ! d"

fun str_nat :: "nat \<Rightarrow> string" where
  "str_nat n = (if n < 10 then [digit_char n] else str_nat (n div 10) @ [digit_char (n mod 10)])"

declare str_nat.simps [simp del]

text \<open>\<open>s.lower()\<close>, character by character (below 256 every lower-case form is one
  character: A-Z and the accented capitals of Latin-1, the multiplication sign apart).\<close>

definition lower_char :: "char \<Rightarrow> char" where
  "lower_char c =
     (let n = (of_char c :: nat)
      in if (65 \<le> n \<and> n \<le> 90) \<or> (192 \<le> n \<and> n \<le> 222 \<and> n \<noteq> 215)
         then char_of (n + 32) else c)"

definition lower :: "string \<Rightarrow> string" where
  "lower s = map lower_char s"

section \<open>Exceptions\<close>

text \<open>
  The messages of the \<open>ValueError\<close>s raised by the code, as constructors:
  unsupported file format, no \<open>Total_Rows\<close> line, the file could not be read and split,
  and the empty separator of \<open>str.split\<close>.
\<close>

datatype value_error =
  UnsupportedFormat | TotalRowsNotFound | CannotReadAndSplit | EmptySeparator

datatype exn =
  FileNotFoundError | OSError | UnicodeDecodeError | ValueError value_error | IndexError
  | ParserError

text \<open>Sequencing of computations that may raise.\<close>

definition bind :: "exn + 'a \<Rightarrow> ('a \<Rightarrow> exn + 'b) \<Rightarrow> exn + 'b" where
  "bind m f = (case m of Inl e \<Rightarrow> Inl e | Inr x \<Rightarrow> f x)"

text \<open>\<open>xs[i]\<close> for \<open>i \<ge> 0\<close>: IndexError out of range.\<close>

definition item :: "'a list \<Rightarrow> nat \<Rightarrow> exn + 'a" where
  "item xs i = (if i < length xs then Inr (xs ! i) else Inl IndexError)"

text \<open>\<open>xs[a:b]\<close> and \<open>xs[a:]\<close> for \<open>a, b \<ge> 0\<close>: slices never raise.\<close>

definition slice :: "'a list \<Rightarrow> nat \<Rightarrow> nat \<Rightarrow> 'a list" where
  "slice xs a b = drop a (take b xs)"

definition slice_from :: "'a list \<Rightarrow> nat \<Rightarrow> 'a list" where
  "slice_from xs a = drop a xs"

section \<open>The environment: files and libraries\<close>

text \<open>
  A path names a text file, with the text that reading it yields (decoded, every line
  end a single \<open>\n\<close>, as Python's text mode delivers it), a directory, or a file
  whose bytes are not UTF-8.
\<close>

datatype node = TextFile string | Directory | Undecodable

type_synonym filesystem = "string \<rightharpoonup> node"

definition exists_path :: "filesystem \<Rightarrow> string \<Rightarrow> bool" where
  "exists_path fs p \<longleftrightarrow> fs p \<noteq> None"

text \<open>Opening a file and reading its text: a missing file raises FileNotFoundError, a
  directory IsADirectoryError (an OSError), bytes that are not UTF-8 UnicodeDecodeError.\<close>

definition open_read :: "filesystem \<Rightarrow> string \<Rightarrow> exn + string" where
  "open_read fs p =
     (case fs p of
        None \<Rightarrow> Inl FileNotFoundError
      | Some Directory \<Rightarrow> Inl OSError
      | Some Undecodable \<Rightarrow> Inl UnicodeDecodeError
      | Some (TextFile s) \<Rightarrow> Inr s)"

text \<open>
  The library functions the code calls and the repository does not define:
  \<open>pd.read_csv(StringIO(content), sep='\t')\<close>, \<open>pd.DataFrame()\<close>, \<open>len(df)\<close>,
  \<open>os.path.splitext(p)[1]\<close> and \<open>os.path.abspath\<close>.  They are parameters of the model;
  \<open>'df\<close> is the type of data frames.  So is \<open>open_w_error\<close>: the exception that
  \<open>open(p, 'w')\<close> raises for a reason the file system above does not hold (a missing
  parent directory, an empty path, no permission), if it raises one.
\<close>

record 'df library =
  read_csv :: "string \<Rightarrow> exn + 'df"
  empty_df :: "'df"
  df_len :: "'df \<Rightarrow> nat"
  splitext_ext :: "string \<Rightarrow> string"
  abspath :: "string \<Rightarrow> string"
  open_w_error :: "string \<Rightarrow> exn option"

text \<open>A path can be opened for writing: it is no directory and \<open>open(p, 'w')\<close> raises
  nothing for it.\<close>

definition writable :: "('df, 'x) library_scheme \<Rightarrow> filesystem \<Rightarrow> string \<Rightarrow> bool" where
  "writable lib fs p \<longleftrightarrow> fs p \<noteq> Some Directory \<and> open_w_error lib p = None"

text \<open>\<open>with open(p, 'w') as f: f.write(s)\<close>: the file is created or replaced, unless
  opening it raises.\<close>

definition open_write ::
  "('df, 'x) library_scheme \<Rightarrow> filesystem \<Rightarrow> string \<Rightarrow> string \<Rightarrow> exn + filesystem" where
  "open_write lib fs p s =
     (case fs p of
        Some Directory \<Rightarrow> Inl OSError
      | _ \<Rightarrow>
          (case open_w_error lib p of
             Some e \<Rightarrow> Inl e
           | None \<Rightarrow> Inr (fs(p \<mapsto> TextFile s))))"

section \<open>apple\_csv\_handler\<close>

text \<open>Iterating over an open text file: the lines, each with its line end.\<close>

fun file_iter :: "string \<Rightarrow> string list" where
  "file_iter [] = []"
| "file_iter (c # cs) =
     (if c = NL then [NL] # file_iter cs
      else (case file_iter cs of
              [] \<Rightarrow> [[c]]
            | l # ls \<Rightarrow> (c # l) # ls))"

text \<open>\<open>[line.strip() for line in f if line.strip()]\<close>\<close>

definition stripped_lines :: "string \<Rightarrow> string list" where
  "stripped_lines content = filter (\<lambda>l. l \<noteq> []) (map strip (file_iter content))"

text \<open>A line as \<open>stripped_lines\<close> yields it: not empty, without a line end, and with no
  white space at either end.\<close>

definition clean_line :: "string \<Rightarrow> bool" where
  "clean_line l \<longleftrightarrow> l \<noteq> [] \<and> NL \<notin> set l \<and> \<not> isspace (hd l) \<and> \<not> isspace (last l)"

text \<open>The loop that finds the index of the first line starting with \<open>Total_Rows\<close>.\<close>

fun find_total_row :: "nat \<Rightarrow> string list \<Rightarrow> nat option" where
  "find_total_row i [] = None"
| "find_total_row i (line # rest) =
     (if startswith line ''Total_Rows'' then Some i else find_total_row (Suc i) rest)"

text \<open>\<open>header + '\n' + '\n'.join(data)\<close>\<close>

definition part_content :: "string \<Rightarrow> string list \<Rightarrow> string" where
  "part_content hdr data_lines = hdr @ [NL] @ join [NL] data_lines"

text \<open>\<open>split_broken_csv\<close>: the first variant, which raises when there is no
  \<open>Total_Rows\<close> line and reads the line after it without a bounds check.\<close>

definition split_broken_csv ::
  "('df, 'x) library_scheme \<Rightarrow> filesystem \<Rightarrow> string \<Rightarrow> exn + ('df \<times> string \<times> 'df)" where
  "split_broken_csv lib fs file_path =
     bind (open_read fs file_path) (\<lambda>content.
     let lines = stripped_lines content in
     case find_total_row 0 lines of
       None \<Rightarrow> Inl (ValueError TotalRowsNotFound)
     | Some total_row_index \<Rightarrow>
         bind (item lines 0) (\<lambda>part1_header.
         let part1_data = slice lines 1 total_row_index;
             part1_content = part_content part1_header part1_data in
         bind (read_csv lib part1_content) (\<lambda>df_part1.
         bind (item lines total_row_index) (\<lambda>total_line.
         bind (item (split_char TAB total_line) 1) (\<lambda>total_rows.
         bind (item lines (total_row_index + 1)) (\<lambda>part2_header.
         let part2_data = slice_from lines (total_row_index + 2);
             part2_content = part_content part2_header part2_data in
         bind (read_csv lib part2_content) (\<lambda>df_part2.
         Inr (df_part1, total_rows, df_part2))))))))"

text \<open>\<open>read_csv_into_parts\<close>: the body of its \<open>try\<close> block, after the lines are read.\<close>

definition parts_of_lines ::
  "('df, 'x) library_scheme \<Rightarrow> string list \<Rightarrow> exn + ('df \<times> string \<times> 'df)" where
  "parts_of_lines lib lines =
     (case find_total_row 0 lines of
        None \<Rightarrow>
          (let mid_point = length lines div 2 in
           if mid_point > 0 then
             bind (item lines 0) (\<lambda>part1_header.
             let part1_data = slice lines 1 mid_point;
                 part1_content = part_content part1_header part1_data in
             bind (read_csv lib part1_content) (\<lambda>df_part1.
             let total_rows = str_nat (df_len lib df_part1) in
             if mid_point < length lines then
               bind (item lines mid_point) (\<lambda>part2_header.
               let part2_data = slice_from lines (mid_point + 1);
                   part2_content = part_content part2_header part2_data in
               bind (read_csv lib part2_content) (\<lambda>df_part2.
               Inr (df_part1, total_rows, df_part2)))
             else Inr (df_part1, total_rows, empty_df lib)))
           else Inr (empty_df lib, ''0'', empty_df lib))
      | Some total_row_index \<Rightarrow>
          bind (item lines 0) (\<lambda>part1_header.
          let part1_data = slice lines 1 total_row_index;
              part1_content = part_content part1_header part1_data in
          bind (read_csv lib part1_content) (\<lambda>df_part1.
          bind (item lines total_row_index) (\<lambda>total_line.
          bind (item (split_char TAB total_line) 1) (\<lambda>total_rows.
          if total_row_index + 1 < length lines then
            bind (item lines (total_row_index + 1)) (\<lambda>part2_header.
            let part2_data = (if total_row_index + 2 < length lines
                              then slice_from lines (total_row_index + 2) else []);
                part2_content = part_content part2_header part2_data in
            bind (read_csv lib part2_content) (\<lambda>df_part2.
            Inr (df_part1, total_rows, df_part2)))
          else Inr (df_part1, total_rows, empty_df lib))))))"

text \<open>The \<open>try\<close> block: open the file, read its lines, split them.  Every exception
  raised inside is caught and replaced by one \<open>ValueError\<close>.\<close>

definition read_csv_into_parts ::
  "('df, 'x) library_scheme \<Rightarrow> filesystem \<Rightarrow> string \<Rightarrow> exn + ('df \<times> string \<times> 'df)" where
  "read_csv_into_parts lib fs file_path =
     (if \<not> exists_path fs file_path then Inl FileNotFoundError
      else if lower (splitext_ext lib file_path) \<notin> set [''.csv'', ''.txt'']
      then Inl (ValueError UnsupportedFormat)
      else (case bind (open_read fs file_path) (\<lambda>content.
                   parts_of_lines lib (stripped_lines content)) of
              Inl e \<Rightarrow> Inl (ValueError CannotReadAndSplit)
            | Inr r \<Rightarrow> Inr r))"

section \<open>analytics\_handler: splitting a file at a keyword\<close>

text \<open>\<open>s.find(kw)\<close>: the least index at which \<open>kw\<close> starts in \<open>s\<close>; \<open>kw in s\<close>.\<close>

fun find_str :: "string \<Rightarrow> string \<Rightarrow> nat option" where
  "find_str [] kw = (if kw = [] then Some 0 else None)"
| "find_str (c # cs) kw =
     (if startswith (c # cs) kw then Some 0 else map_option Suc (find_str cs kw))"

definition contains :: "string \<Rightarrow> string \<Rightarrow> bool" where
  "contains s kw \<longleftrightarrow> find_str s kw \<noteq> None"

text \<open>\<open>s.split(kw, 1)\<close>: at most one split, at the first occurrence; the empty
  separator raises ValueError.\<close>

definition split_once :: "string \<Rightarrow> string \<Rightarrow> exn + string list" where
  "split_once s kw =
     (if kw = [] then Inl (ValueError EmptySeparator)
      else (case find_str s kw of
              None \<Rightarrow> Inr [s]
            | Some i \<Rightarrow> Inr [take i s, drop (i + length kw) s]))"

text \<open>The \<open>try\<close> block of \<open>split_file_by_keyword\<close>: what it returns or raises, and the
  files as it leaves them.  (The \<open>encoding\<close> argument is not modelled: files hold text.)\<close>

definition split_file_body ::
  "('df, 'x) library_scheme \<Rightarrow> filesystem \<Rightarrow> string \<Rightarrow> string \<Rightarrow> string \<Rightarrow> string
     \<Rightarrow> (exn + (string option \<times> string option)) \<times> filesystem" where
  "split_file_body lib fs input_path keyword output1_path output2_path =
     (case open_read fs input_path of
        Inl e \<Rightarrow> (Inl e, fs)
      | Inr content \<Rightarrow>
          if \<not> contains content keyword then (Inr (None, None), fs)
          else (case split_once content keyword of
                  Inl e \<Rightarrow> (Inl e, fs)
                | Inr parts \<Rightarrow>
                    (case item parts 0 of
                       Inl e \<Rightarrow> (Inl e, fs)
                     | Inr prefix_text \<Rightarrow>
                         (case item parts 1 of
                            Inl e \<Rightarrow> (Inl e, fs)
                          | Inr suffix_text \<Rightarrow>
                              (case open_write lib fs output1_path prefix_text of
                                 Inl e \<Rightarrow> (Inl e, fs)
                               | Inr fs1 \<Rightarrow>
                                   (case open_write lib fs1 output2_path suffix_text of
                                      Inl e \<Rightarrow> (Inl e, fs1)
                                    | Inr fs2 \<Rightarrow>
                                        (Inr (Some (abspath lib output1_path),
                                              Some (abspath lib output2_path)), fs2)))))))"

text \<open>\<open>split_file_by_keyword\<close>: every exception is caught and \<open>(None, None)\<close> returned.\<close>

definition split_file_by_keyword ::
  "('df, 'x) library_scheme \<Rightarrow> filesystem \<Rightarrow> string \<Rightarrow> string \<Rightarrow> string \<Rightarrow> string
     \<Rightarrow> (string option \<times> string option) \<times> filesystem" where
  "split_file_by_keyword lib fs input_path keyword output1_path output2_path =
     (case split_file_body lib fs input_path keyword output1_path output2_path of
        (Inl e, fs') \<Rightarrow> ((None, None), fs')
      | (Inr r, fs') \<Rightarrow> (r, fs'))"

section \<open>Tables as the specification describes them\<close>

text \<open>
  A table: its column names and its rows, each row the list of (column, value) pairs
  in header order.  The table with no columns and no rows is the empty table.
\<close>

datatype table = Table (columns: "string list") (rows: "(string \<times> string) list list")

text \<open>
  Modelled from the spec: the table of a header line and its data lines.  Section 4.1,
  step 6: header and data lines are split at the tab character and every data line is
  paired with the header by position.
\<close>

definition table_of_lines :: "string \<Rightarrow> string list \<Rightarrow> table" where
  "table_of_lines h ds =
     Table (split_char TAB h) (map (\<lambda>d. zip (split_char TAB h) (split_char TAB d)) ds)"

text \<open>
  Modelled from the spec: \<open>pandas.read_csv\<close> with tab as separator.  It is a library
  function, its code is not in the repository; this is the reader of Section 4.1,
  step 6.  Blank lines are skipped; a text with no line at all is refused.
\<close>

definition tokenize_table :: "string \<Rightarrow> exn + table" where
  "tokenize_table content =
     (case filter (\<lambda>l. l \<noteq> []) (split_char NL content) of
        [] \<Rightarrow> Inl ParserError
      | h # ds \<Rightarrow> Inr (table_of_lines h ds))"

text \<open>
  The extension of a path as \<open>os.path.splitext\<close> of the Python library gives it for
  POSIX paths: from the last dot of the last component, leading dots of the component
  not counted.  It stands for \<open>splitext_ext\<close> in the examples.
\<close>

definition posix_ext :: "string \<Rightarrow> string" where
  "posix_ext p =
     (let name = rev (takeWhile (\<lambda>c. c \<noteq> CHR ''/'') (rev p))
      in if CHR ''.'' \<in> set (dropWhile (\<lambda>c. c = CHR ''.'') name)
         then CHR ''.'' # rev (takeWhile (\<lambda>c. c \<noteq> CHR ''.'') (rev name))
         else [])"

text \<open>
  The environment of the examples: \<open>/data\<close> is the only directory, so \<open>open(p, 'w')\<close>
  succeeds for the name of a file in it and raises FileNotFoundError for every other
  path, the empty one too.
\<close>

definition data_dir_only :: "string \<Rightarrow> exn option" where
  "data_dir_only p =
     (let name = drop 6 p
      in if take 6 p = ''/data/'' \<and> name \<noteq> [] \<and> CHR ''/'' \<notin> set name
            \<and> name \<noteq> ''.'' \<and> name \<noteq> ''..''
         then None else Some FileNotFoundError)"

text \<open>
  Modelled from the spec: the library with the tables of Section 3 for data frames and
  the reader of Section 4.1.  \<open>abspath\<close> is the identity: the paths used with it in
  the examples are absolute and normal.
\<close>

definition spec_library :: "table library" where
  "spec_library =
     \<lparr> read_csv = tokenize_table,
       empty_df = Table [] [],
       df_len = (\<lambda>t. length (rows t)),
       splitext_ext = posix_ext,
       abspath = (\<lambda>p. p),
       open_w_error = data_dir_only \<rparr>"

text \<open>
  A reader that refuses ragged text as \<open>pandas.read_csv\<close> does ("Expected n fields in
  line k, saw m"): a text in which a line after the first data line has more
  tab-separated fields than the header and every line before it.  Every other text it
  reads as the reader above.
\<close>

definition ragged :: "string \<Rightarrow> string list \<Rightarrow> bool" where
  "ragged h ds =
     (case ds of
        [] \<Rightarrow> False
      | d # rest \<Rightarrow>
          list_ex (\<lambda>l. max (length (split_char TAB h)) (length (split_char TAB d))
                         < length (split_char TAB l)) rest)"

definition strict_tokenize_table :: "string \<Rightarrow> exn + table" where
  "strict_tokenize_table content =
     (case filter (\<lambda>l. l \<noteq> []) (split_char NL content) of
        [] \<Rightarrow> Inl ParserError
      | h # ds \<Rightarrow> if ragged h ds then Inl ParserError else Inr (table_of_lines h ds))"

definition strict_library :: "table library" where
  "strict_library = spec_library \<lparr> read_csv := strict_tokenize_table \<rparr>"

text \<open>
  Modelled from the spec: Section 8 re-serialises a result with tabs, as the lines of
  the first table, the sentinel line and the lines of the second table.  The repository
  has no serialiser.  The empty table has no lines.
\<close>

definition table_lines :: "table \<Rightarrow> string list" where
  "table_lines t =
     (if columns t = [] then []
      else join [TAB] (columns t) # map (\<lambda>r. join [TAB] (map snd r)) (rows t))"

definition reconstitute :: "table \<times> string \<times> table \<Rightarrow> string" where
  "reconstitute r =
     (case r of (first_table, sentinel_value, second_table) \<Rightarrow>
        join [NL] (table_lines first_table
                   @ [''Total_Rows'' @ [TAB] @ sentinel_value]
                   @ table_lines second_table))"

section \<open>Example inputs\<close>

text \<open>A file system with one report, given as rows of fields: the fields of a row are
  joined by tabs and the rows by line ends.\<close>

definition example_file :: "string list list \<Rightarrow> filesystem" where
  "example_file table_rows =
     [''/data/report.csv'' \<mapsto> TextFile (join [NL] (map (join [TAB]) table_rows))]"

text \<open>A file system with one text file, for \<open>split_file_by_keyword\<close>.\<close>

definition keyword_file :: "string \<Rightarrow> filesystem" where
  "keyword_file content = [''/data/in.txt'' \<mapsto> TextFile content]"

lemmas model_defs =
  example_file_def keyword_file_def
  read_csv_into_parts_def parts_of_lines_def split_broken_csv_def
  split_file_by_keyword_def split_file_body_def split_once_def contains_def
  spec_library_def tokenize_table_def table_of_lines_def posix_ext_def
  strict_library_def strict_tokenize_table_def ragged_def data_dir_only_def writable_def
  reconstitute_def table_lines_def
  exists_path_def open_read_def open_write_def bind_def item_def slice_def slice_from_def
  part_content_def stripped_lines_def strip_def isspace_def lower_def lower_char_def
  str_nat.simps digit_char_def TAB_def NL_def

section \<open>The search for the \<open>Total_Rows\<close> line\<close>

lemma find_total_row_None:
  "find_total_row i ls = None \<longleftrightarrow> (\<forall>l \<in> set ls. \<not> startswith l ''Total_Rows'')"
  by (induction ls arbitrary: i) auto

lemma find_total_row_first:
  "k < length ls \<Longrightarrow> startswith (ls ! k) ''Total_Rows'' \<Longrightarrow>
   (\<forall>j<k. \<not> startswith (ls ! j) ''Total_Rows'') \<Longrightarrow> find_total_row i ls = Some (i + k)"
proof (induction ls arbitrary: i k)
  case Nil
  then show ?case by simp
next
  case (Cons l ls)
  show ?case
  proof (cases k)
    case 0
    with Cons.prems show ?thesis by simp
  next
    case (Suc k')
    from Cons.prems Suc have "\<not> startswith l ''Total_Rows''" by auto
    moreover have "find_total_row (Suc i) ls = Some (Suc i + k')"
      using Cons.prems Suc by (intro Cons.IH) auto
    ultimately show ?thesis using Suc by simp
  qed
qed

lemma find_total_row_Some:
  "find_total_row i ls = Some n \<Longrightarrow>
   i \<le> n \<and> n - i < length ls \<and> startswith (ls ! (n - i)) ''Total_Rows'' \<and>
   (\<forall>j<n - i. \<not> startswith (ls ! j) ''Total_Rows'')"
proof (induction ls arbitrary: i)
  case Nil
  then show ?case by simp
next
  case (Cons l ls)
  show ?case
  proof (cases "startswith l ''Total_Rows''")
    case True
    with Cons.prems show ?thesis by simp
  next
    case False
    with Cons.prems have "find_total_row (Suc i) ls = Some n" by simp
    from Cons.IH[OF this] have ih: "Suc i \<le> n" "n - Suc i < length ls"
      "startswith (ls ! (n - Suc i)) ''Total_Rows''"
      "\<forall>j<n - Suc i. \<not> startswith (ls ! j) ''Total_Rows''" by auto
    from ih(1) have eq: "n - i = Suc (n - Suc i)" by simp
    show ?thesis using ih False unfolding eq
      by (auto simp: less_Suc_eq_0_disj)
  qed
qed

lemma read_parts_unfold:
  assumes "fs file_path = Some (TextFile content)"
    and "lower (splitext_ext lib file_path) \<in> {''.csv'', ''.txt''}"
  shows "read_csv_into_parts lib fs file_path =
     (case parts_of_lines lib (stripped_lines content) of
        Inl e \<Rightarrow> Inl (ValueError CannotReadAndSplit) | Inr r \<Rightarrow> Inr r)"
  using assms by (simp add: read_csv_into_parts_def exists_path_def open_read_def bind_def)

lemma split_char_length: "length (split_char sep s) = Suc (count_list s sep)"
  by (induction s) (auto split: list.splits)


lemma parts_of_lines_sentinel:
  assumes s: "s < length lines" "startswith (lines ! s) ''Total_Rows''"
      "\<forall>i<s. \<not> startswith (lines ! i) ''Total_Rows''"
    and fields: "2 \<le> length (split_char TAB (lines ! s))"
    and first: "read_csv lib (part_content (lines ! 0) (slice lines 1 s)) = Inr first_table"
    and second: "s + 1 < length lines \<longrightarrow>
       read_csv lib (part_content (lines ! (s + 1)) (slice_from lines (s + 2))) = Inr second_table"
  shows "parts_of_lines lib lines =
     Inr (first_table, split_char TAB (lines ! s) ! 1,
          if s + 1 < length lines then second_table else empty_df lib)"
proof -
  have idx: "find_total_row 0 lines = Some s"
    using find_total_row_first[OF s, of 0] by simp
  have drop_nil: "\<not> s + 2 < length lines \<Longrightarrow> slice_from lines (s + 2) = []"
    by (simp add: slice_from_def)
  show ?thesis
    using s(1) fields first second drop_nil
    by (auto simp: parts_of_lines_def idx bind_def item_def)
qed

lemma parts_of_lines_short_sentinel:
  assumes s: "s < length lines" "startswith (lines ! s) ''Total_Rows''"
      "\<forall>i<s. \<not> startswith (lines ! i) ''Total_Rows''"
    and fields: "length (split_char TAB (lines ! s)) < 2"
  shows "\<exists>e. parts_of_lines lib lines = Inl e"
proof -
  have idx: "find_total_row 0 lines = Some s"
    using find_total_row_first[OF s, of 0] by simp
  show ?thesis
    using s(1) fields
    by (cases "read_csv lib (part_content (lines ! 0) (slice lines 1 s))")
       (auto simp: parts_of_lines_def idx bind_def item_def)
qed

lemma parts_of_lines_fallback:
  assumes none: "\<forall>l \<in> set lines. \<not> startswith l ''Total_Rows''"
    and len: "2 \<le> length lines"
    and first: "read_csv lib (part_content (lines ! 0) (slice lines 1 (length lines div 2)))
                 = Inr first_table"
    and second: "read_csv lib (part_content (lines ! (length lines div 2))
                   (slice_from lines (length lines div 2 + 1))) = Inr second_table"
  shows "parts_of_lines lib lines =
     Inr (first_table, str_nat (df_len lib first_table), second_table)"
proof -
  have idx: "find_total_row 0 lines = None"
    using none by (simp add: find_total_row_None)
  from len have mid: "0 < length lines div 2" "length lines div 2 < length lines"
    "0 < length lines" by auto
  show ?thesis
    using mid first second
    by (simp add: parts_of_lines_def idx bind_def item_def Let_def)
qed

lemma parts_of_lines_degenerate:
  assumes none: "\<forall>l \<in> set lines. \<not> startswith l ''Total_Rows''"
    and len: "length lines < 2"
  shows "parts_of_lines lib lines = Inr (empty_df lib, ''0'', empty_df lib)"
proof -
  have idx: "find_total_row 0 lines = None"
    using none by (simp add: find_total_row_None)
  from len have "length lines div 2 = 0" by simp
  then show ?thesis
    by (simp add: parts_of_lines_def idx)
qed

lemma split_broken_csv_no_sentinel:
  assumes "fs file_path = Some (TextFile content)"
    and "\<forall>l \<in> set (stripped_lines content). \<not> startswith l ''Total_Rows''"
  shows "split_broken_csv lib fs file_path = Inl (ValueError TotalRowsNotFound)"
proof -
  have "find_total_row 0 (stripped_lines content) = None"
    using assms(2) by (simp add: find_total_row_None)
  then show ?thesis
    using assms(1) by (simp add: split_broken_csv_def open_read_def bind_def)
qed

lemma read_csv_into_parts_errors:
  "read_csv_into_parts lib fs file_path = Inl e \<Longrightarrow>
   e = FileNotFoundError \<or> e = ValueError UnsupportedFormat \<or> e = ValueError CannotReadAndSplit"
  by (auto simp: read_csv_into_parts_def split: if_splits sum.splits)

section \<open>The search for a keyword\<close>

lemma startswith_prefix: "startswith s p \<longleftrightarrow> prefix p s"
  by (induction s p rule: startswith.induct) auto

lemma find_str_None: "find_str s kw = None \<longleftrightarrow> \<not> sublist kw s"
proof (induction s)
  case Nil
  then show ?case by simp
next
  case (Cons c cs)
  show ?case
  proof (cases "startswith (c # cs) kw")
    case True
    then have "sublist kw (c # cs)" by (simp add: startswith_prefix)
    with True show ?thesis by simp
  next
    case False
    then have "sublist kw (c # cs) \<longleftrightarrow> sublist kw cs"
      by (simp add: startswith_prefix sublist_Cons_right)
    with False Cons.IH show ?thesis by simp
  qed
qed

lemma find_str_le: "find_str s kw = Some i \<Longrightarrow> i \<le> length s"
  by (induction s arbitrary: i) (auto split: if_splits)

lemma find_str_Some:
  "find_str s kw = Some i \<Longrightarrow>
     s = take i s @ kw @ drop (i + length kw) s \<and> (\<forall>j<i. \<not> prefix kw (drop j s))"
proof (induction s arbitrary: i)
  case Nil
  then show ?case by (simp split: if_splits)
next
  case (Cons c cs)
  show ?case
  proof (cases "startswith (c # cs) kw")
    case True
    with Cons.prems have "i = 0" by simp
    moreover from True obtain r where "c # cs = kw @ r"
      by (auto simp: startswith_prefix prefix_def)
    ultimately show ?thesis by simp
  next
    case False
    with Cons.prems obtain i' where i': "find_str cs kw = Some i'" "i = Suc i'"
      by auto
    from Cons.IH[OF i'(1)] have ih: "cs = take i' cs @ kw @ drop (i' + length kw) cs"
      "\<forall>j<i'. \<not> prefix kw (drop j cs)" by auto
    have "\<forall>j<i. \<not> prefix kw (drop j (c # cs))"
    proof (intro allI impI)
      fix j assume "j < i"
      show "\<not> prefix kw (drop j (c # cs))"
      proof (cases j)
        case 0
        with False show ?thesis by (simp add: startswith_prefix)
      next
        case (Suc j')
        with \<open>j < i\<close> i'(2) ih(2) show ?thesis by simp
      qed
    qed
    moreover have "c # cs = take i (c # cs) @ kw @ drop (i + length kw) (c # cs)"
      using ih(1) i'(2) by simp
    ultimately show ?thesis by blast
  qed
qed

lemma open_write_writable:
  assumes "writable lib fs p"
  shows "open_write lib fs p s = Inr (fs(p \<mapsto> TextFile s))"
proof (cases "fs p")
  case None
  with assms show ?thesis by (simp add: open_write_def writable_def)
next
  case (Some n)
  with assms show ?thesis by (cases n) (simp_all add: open_write_def writable_def)
qed

lemma contains_sublist: "contains s kw \<longleftrightarrow> sublist kw s"
  by (simp add: contains_def find_str_None)

lemma first_occurrence:
  assumes i: "find_str s kw = Some i" and kw: "kw \<noteq> []"
  shows "\<not> sublist kw (take i s)" and "s = b @ kw @ a \<Longrightarrow> i \<le> length b"
proof -
  from find_str_Some[OF i] have eq: "s = take i s @ kw @ drop (i + length kw) s"
    and least: "\<forall>j<i. \<not> prefix kw (drop j s)" by auto
  have len: "i \<le> length s"
    using i by (rule find_str_le)
  show "\<not> sublist kw (take i s)"
  proof
    assume "sublist kw (take i s)"
    then obtain p q where pq: "take i s = p @ kw @ q" by (auto simp: sublist_def)
    from arg_cong[OF pq, of length] len
    have "length p + length kw + length q = i" by simp
    with kw have "length p < i" by (cases kw) auto
    moreover have "s = (p @ kw @ q) @ drop i s"
      using pq append_take_drop_id[of i s] by simp
    then have "s = p @ (kw @ q @ drop i s)" by simp
    then have "drop (length p) s = kw @ q @ drop i s"
      using append_eq_conv_conj[of p "kw @ q @ drop i s" s] by simp
    then have "prefix kw (drop (length p) s)" by simp
    ultimately show False using least by blast
  qed
  show "i \<le> length b" if "s = b @ kw @ a"
  proof (rule ccontr)
    assume "\<not> i \<le> length b"
    then have "length b < i" by simp
    moreover from that have "prefix kw (drop (length b) s)" by simp
    ultimately show False using least by blast
  qed
qed

section \<open>Splitting, joining and stripping\<close>

lemma isspace_NL: "isspace NL"
  by (simp add: isspace_def NL_def)

lemma split_char_nonempty: "split_char sep s \<noteq> []"
  by (induction s) (auto split: list.splits)

lemma split_char_no_sep: "sep \<notin> set s \<Longrightarrow> split_char sep s = [s]"
  by (induction s) auto

lemma split_char_append:
  "sep \<notin> set a \<Longrightarrow> split_char sep (a @ sep # b) = a # split_char sep b"
  by (induction a) auto

lemma split_char_fields: "f \<in> set (split_char sep s) \<Longrightarrow> sep \<notin> set f"
proof (induction s arbitrary: f)
  case Nil
  then show ?case by simp
next
  case (Cons c cs)
  show ?case
  proof (cases "c = sep")
    case True
    with Cons show ?thesis by auto
  next
    case False
    obtain w ws where ws: "split_char sep cs = w # ws"
      using split_char_nonempty[of sep cs] by (cases "split_char sep cs") auto
    with Cons.prems False have "f = c # w \<or> f \<in> set ws" by auto
    then show ?thesis
    proof
      assume "f = c # w"
      moreover have "sep \<notin> set w" using Cons.IH[of w] ws by simp
      ultimately show ?thesis using False by auto
    next
      assume "f \<in> set ws"
      then show ?thesis using Cons.IH[of f] ws by simp
    qed
  qed
qed

lemma join_split_char: "join [sep] (split_char sep s) = s"
proof (induction s)
  case Nil
  then show ?case by simp
next
  case (Cons c cs)
  obtain w ws where ws: "split_char sep cs = w # ws"
    using split_char_nonempty[of sep cs] by (cases "split_char sep cs") auto
  show ?case
  proof (cases "c = sep")
    case True
    with Cons ws show ?thesis by simp
  next
    case False
    with Cons ws show ?thesis by (cases ws) auto
  qed
qed

lemma join_Cons: "ys \<noteq> [] \<Longrightarrow> join sep (x # ys) = x @ sep @ join sep ys"
  by (cases ys) auto

lemma split_char_join:
  "ls \<noteq> [] \<Longrightarrow> \<forall>l \<in> set ls. sep \<notin> set l \<Longrightarrow> split_char sep (join [sep] ls) = ls"
proof (induction ls)
  case Nil
  then show ?case by simp
next
  case (Cons l ls)
  show ?case
  proof (cases "ls = []")
    case True
    with Cons.prems show ?thesis by (simp add: split_char_no_sep)
  next
    case False
    with Cons show ?thesis by (simp add: join_Cons split_char_append)
  qed
qed

lemma file_iter_no_NL: "s \<noteq> [] \<Longrightarrow> NL \<notin> set s \<Longrightarrow> file_iter s = [s]"
proof (induction s)
  case Nil
  then show ?case by simp
next
  case (Cons c cs)
  then show ?case by (cases cs) auto
qed

lemma file_iter_append:
  "NL \<notin> set a \<Longrightarrow> file_iter (a @ NL # b) = (a @ [NL]) # file_iter b"
  by (induction a) auto

lemma strip_clean: "clean_line l \<Longrightarrow> strip l = l"
proof -
  assume c: "clean_line l"
  then have a: "dropWhile isspace l = l"
    by (cases l) (auto simp: clean_line_def)
  from c have "rev l \<noteq> []" "\<not> isspace (hd (rev l))"
    by (auto simp: clean_line_def hd_rev)
  then have "dropWhile isspace (rev l) = rev l"
    by (cases "rev l") auto
  with a show ?thesis by (simp add: strip_def)
qed

lemma strip_snoc_space: "isspace c \<Longrightarrow> strip (l @ [c]) = strip l"
proof -
  assume c: "isspace c"
  show ?thesis
  proof (cases "\<forall>x \<in> set l. isspace x")
    case True
    then have "dropWhile isspace (l @ [c]) = []" "dropWhile isspace l = []"
      using c by (simp_all only: dropWhile_eq_Nil_conv) auto
    then show ?thesis by (simp only: strip_def)
  next
    case False
    then have "dropWhile isspace (l @ [c]) = dropWhile isspace l @ [c]"
      by (auto simp: dropWhile_append1)
    then have "rev (dropWhile isspace (l @ [c])) = c # rev (dropWhile isspace l)"
      by simp
    then show ?thesis using c by (simp only: strip_def dropWhile.simps if_True)
  qed
qed

lemma stripped_lines_join:
  "\<forall>l \<in> set ls. clean_line l \<Longrightarrow> stripped_lines (join [NL] ls) = ls"
proof (induction ls)
  case Nil
  then show ?case by (simp add: stripped_lines_def)
next
  case (Cons l ls)
  from Cons.prems have cl: "clean_line l" by simp
  show ?case
  proof (cases "ls = []")
    case True
    with cl show ?thesis
      by (simp add: stripped_lines_def file_iter_no_NL strip_clean clean_line_def)
  next
    case False
    have "stripped_lines (join [NL] (l # ls)) = stripped_lines (l @ NL # join [NL] ls)"
      using False by (simp add: join_Cons)
    also have "\<dots> = filter (\<lambda>l. l \<noteq> []) (strip (l @ [NL]) # map strip (file_iter (join [NL] ls)))"
      using cl by (simp add: stripped_lines_def file_iter_append clean_line_def)
    also have "\<dots> = l # stripped_lines (join [NL] ls)"
      using cl by (simp add: strip_snoc_space isspace_NL strip_clean stripped_lines_def clean_line_def)
    finally show ?thesis using Cons by simp
  qed
qed

lemma split_char_subset: "f \<in> set (split_char sep s) \<Longrightarrow> set f \<subseteq> set s"
proof (induction s arbitrary: f)
  case Nil
  then show ?case by simp
next
  case (Cons c cs)
  obtain w ws where ws: "split_char sep cs = w # ws"
    using split_char_nonempty[of sep cs] by (cases "split_char sep cs") auto
  show ?case
  proof (cases "c = sep")
    case True
    with Cons show ?thesis by auto
  next
    case False
    with Cons.prems ws have "f = c # w \<or> f \<in> set ws" by auto
    then show ?thesis
    proof
      assume "f = c # w"
      moreover have "set w \<subseteq> set cs" using Cons.IH[of w] ws by simp
      ultimately show ?thesis by auto
    next
      assume "f \<in> set ws"
      then have "set f \<subseteq> set cs" using Cons.IH[of f] ws by simp
      then show ?thesis by auto
    qed
  qed
qed

lemma file_iter_pieces: "x \<in> set (file_iter s) \<Longrightarrow> x \<noteq> [] \<and> NL \<notin> set (butlast x)"
proof (induction s arbitrary: x)
  case Nil
  then show ?case by simp
next
  case (Cons c cs)
  show ?case
  proof (cases "c = NL")
    case True
    with Cons show ?thesis by auto
  next
    case False
    show ?thesis
    proof (cases "file_iter cs")
      case Nil
      with Cons.prems False show ?thesis by simp
    next
      case (Cons l ls)
      with Cons.prems False have "x = c # l \<or> x \<in> set ls" by auto
      then show ?thesis
      proof
        assume x: "x = c # l"
        have "l \<noteq> [] \<and> NL \<notin> set (butlast l)"
          using Cons.IH[of l] Cons by simp
        with x False show ?thesis by simp
      next
        assume "x \<in> set ls"
        then show ?thesis using Cons.IH[of x] Cons by simp
      qed
    qed
  qed
qed

lemma set_strip: "set (strip x) \<subseteq> set x"
proof -
  have sub: "set (dropWhile isspace xs) \<subseteq> set xs" for xs
    by (auto dest: set_dropWhileD)
  have "set (strip x) = set (dropWhile isspace (rev (dropWhile isspace x)))"
    by (simp only: strip_def set_rev)
  also have "\<dots> \<subseteq> set (rev (dropWhile isspace x))" by (rule sub)
  also have "\<dots> = set (dropWhile isspace x)" by (rule set_rev)
  also have "\<dots> \<subseteq> set x" by (rule sub)
  finally show ?thesis .
qed

lemma strip_ends:
  assumes "strip x \<noteq> []"
  shows "\<not> isspace (hd (strip x))" and "\<not> isspace (last (strip x))"
proof -
  let ?y = "dropWhile isspace x"
  let ?z = "dropWhile isspace (rev ?y)"
  from assms have z: "?z \<noteq> []" by (simp add: strip_def)
  have y: "?y \<noteq> []"
  proof
    assume "?y = []"
    then have "?z = []" by (simp only: rev.simps dropWhile.simps)
    with z show False by contradiction
  qed
  have "\<not> isspace (hd ?z)" using z by (rule hd_dropWhile)
  then show "\<not> isspace (last (strip x))"
    using z by (simp add: strip_def last_rev)
  obtain p where p: "rev ?y = p @ ?z"
    using takeWhile_dropWhile_id[of isspace "rev ?y"] by metis
  have "last ?z = last (rev ?y)" using z p by (metis last_appendR)
  also have "\<dots> = hd ?y" using y by (simp add: last_rev)
  finally have "hd (strip x) = hd ?y" using z by (simp add: strip_def hd_rev)
  moreover have "\<not> isspace (hd ?y)" using y by (rule hd_dropWhile)
  ultimately show "\<not> isspace (hd (strip x))" by simp
qed

lemma stripped_lines_clean: "l \<in> set (stripped_lines content) \<Longrightarrow> clean_line l"
proof -
  assume "l \<in> set (stripped_lines content)"
  then obtain x where x: "x \<in> set (file_iter content)" "l = strip x" "l \<noteq> []"
    by (auto simp: stripped_lines_def)
  from file_iter_pieces[OF x(1)] have xne: "x \<noteq> []" and bl: "NL \<notin> set (butlast x)" by auto
  have "NL \<notin> set l"
  proof (cases "last x = NL")
    case True
    with xne have "x = butlast x @ [NL]" by (metis append_butlast_last_id)
    then have "strip x = strip (butlast x)"
      using strip_snoc_space[OF isspace_NL, of "butlast x"] by simp
    with set_strip[of "butlast x"] bl x(2) show ?thesis by auto
  next
    case False
    with xne bl have "NL \<notin> set x"
      by (metis append_butlast_last_id rotate1.simps(2) set_ConsD set_rotate1)
    with set_strip[of x] x(2) show ?thesis by auto
  qed
  with x(2,3) strip_ends[of x] show ?thesis by (simp add: clean_line_def)
qed

lemma tokenize_part_content:
  assumes h: "clean_line h" and ds: "\<forall>d \<in> set ds. clean_line d"
  shows "tokenize_table (part_content h ds) = Inr (table_of_lines h ds)"
proof (cases "ds = []")
  case True
  have "split_char NL (h @ NL # []) = h # split_char NL []"
    using h by (intro split_char_append) (simp add: clean_line_def)
  with h True show ?thesis
    by (simp add: tokenize_table_def part_content_def clean_line_def)
next
  case False
  have "part_content h ds = join [NL] (h # ds)"
    using False by (simp add: part_content_def join_Cons)
  moreover have "split_char NL (join [NL] (h # ds)) = h # ds"
    using h ds by (intro split_char_join) (auto simp: clean_line_def)
  moreover have "filter (\<lambda>l. l \<noteq> []) (h # ds) = h # ds"
    using h ds by (auto simp: clean_line_def filter_id_conv)
  ultimately show ?thesis by (simp add: tokenize_table_def)
qed

lemma table_lines_table_of_lines:
  assumes "\<forall>d \<in> set ds. length (split_char TAB d) \<le> length (split_char TAB h)"
  shows "table_lines (table_of_lines h ds) = h # ds"
proof -
  have "map (\<lambda>r. join [TAB] (map snd r))
          (map (\<lambda>d. zip (split_char TAB h) (split_char TAB d)) ds) = ds"
  proof -
    have "\<And>d. d \<in> set ds \<Longrightarrow>
        join [TAB] (map snd (zip (split_char TAB h) (split_char TAB d))) = d"
      using assms by (simp add: map_snd_zip_take join_split_char)
    then show ?thesis by (simp add: map_idI)
  qed
  then show ?thesis
    by (simp add: table_lines_def table_of_lines_def split_char_nonempty join_split_char)
qed

section \<open>Properties of \<open>read_csv_into_parts\<close> and \<open>split_broken_csv\<close>\<close>

text \<open>
  Claim C1, as amended.  Let the stripped non-empty lines of the file contain a line
  starting with \<open>Total_Rows\<close>, \<open>s\<close> the index of the first one, and let line \<open>s\<close>
  have at least two tab-separated fields.  If the table reader accepts the texts it is
  given, \<open>read_csv_into_parts\<close> returns the table read from header line 0 and data
  lines \<open>[1, s)\<close>, the second tab-separated field of line \<open>s\<close>, and the table read from
  header line \<open>s + 1\<close> and data lines \<open>[s + 2, end)\<close>; when line \<open>s\<close> is the last
  line the second table is the empty data frame.
\<close>

theorem sentinel_split:
  assumes inp: "fs file_path = Some (TextFile content)"
    and ext: "lower (splitext_ext lib file_path) \<in> {''.csv'', ''.txt''}"
    and lines: "lines = stripped_lines content"
    and s: "s < length lines" "startswith (lines ! s) ''Total_Rows''"
      "\<forall>i<s. \<not> startswith (lines ! i) ''Total_Rows''"
    and fields: "2 \<le> length (split_char TAB (lines ! s))"
    and first: "read_csv lib (part_content (lines ! 0) (slice lines 1 s)) = Inr first_table"
    and second: "s + 1 < length lines \<longrightarrow>
       read_csv lib (part_content (lines ! (s + 1)) (slice_from lines (s + 2))) = Inr second_table"
  shows "read_csv_into_parts lib fs file_path =
     Inr (first_table, split_char TAB (lines ! s) ! 1,
          if s + 1 < length lines then second_table else empty_df lib)"
  using parts_of_lines_sentinel[OF s fields first second]
    read_parts_unfold[of fs file_path content lib, OF inp ext] lines
  by simp

text \<open>Scenario A of the specification, with tables read as the specification says.\<close>

theorem sentinel_split_scenario_A:
  "read_csv_into_parts spec_library
     (example_file [[''H1'', ''H2''], [''a'', ''b''], [''Total_Rows'', ''2''], [''H3'', ''H4''], [''c'', ''d'']])
     ''/data/report.csv''
   = Inr (Table [''H1'', ''H2''] [[(''H1'', ''a''), (''H2'', ''b'')]], ''2'',
          Table [''H3'', ''H4''] [[(''H3'', ''c''), (''H4'', ''d'')]])"
  using sentinel_split [of "example_file [[''H1'', ''H2''], [''a'', ''b''], [''Total_Rows'', ''2''], [''H3'', ''H4''], [''c'', ''d'']]"
      "''/data/report.csv''"
      "join [NL] (map (join [TAB]) [[''H1'', ''H2''], [''a'', ''b''], [''Total_Rows'', ''2''], [''H3'', ''H4''], [''c'', ''d'']])"
      spec_library
      "map (join [TAB]) [[''H1'', ''H2''], [''a'', ''b''], [''Total_Rows'', ''2''], [''H3'', ''H4''], [''c'', ''d'']]"
      2
      "Table [''H1'', ''H2''] [[(''H1'', ''a''), (''H2'', ''b'')]]"
      "Table [''H3'', ''H4''] [[(''H3'', ''c''), (''H4'', ''d'')]]"]
  by (simp add: model_defs numeral_2_eq_2 All_less_Suc less_Suc_eq)

text \<open>A sentinel line without a second field: the lines contain a sentinel line, at
  index 2, and no result is returned.\<close>

theorem sentinel_without_value_fails:
  "find_total_row 0
     (stripped_lines (join [NL] (map (join [TAB])
        [[''H1'', ''H2''], [''a'', ''b''], [''Total_Rows''], [''H3'', ''H4''], [''c'', ''d'']])))
     = Some 2
   \<and> read_csv_into_parts spec_library
        (example_file
           [[''H1'', ''H2''], [''a'', ''b''], [''Total_Rows''], [''H3'', ''H4''], [''c'', ''d'']])
        ''/data/report.csv''
      = Inl (ValueError CannotReadAndSplit)"
  by (simp add: model_defs)

text \<open>
  Claim C2, as amended.  Let the file have at least two stripped non-empty lines, none
  starting with \<open>Total_Rows\<close>, let \<open>m\<close> be half their number, rounded down, and let
  the table reader accept the two texts it is given.  Then \<open>read_csv_into_parts\<close> does
  not fail: it returns the table read from header line 0 and data lines \<open>[1, m)\<close>,
  the decimal string of the number of rows of that table as read, and the table read
  from header line \<open>m\<close> and data lines \<open>[m + 1, end)\<close>.
\<close>

theorem fallback_split:
  assumes inp: "fs file_path = Some (TextFile content)"
    and ext: "lower (splitext_ext lib file_path) \<in> {''.csv'', ''.txt''}"
    and lines: "lines = stripped_lines content"
    and len: "2 \<le> length lines"
    and none: "\<forall>l \<in> set lines. \<not> startswith l ''Total_Rows''"
    and m: "m = length lines div 2"
    and first: "read_csv lib (part_content (lines ! 0) (slice lines 1 m)) = Inr first_table"
    and second: "read_csv lib (part_content (lines ! m) (slice_from lines (m + 1)))
                  = Inr second_table"
  shows "read_csv_into_parts lib fs file_path =
     Inr (first_table, str_nat (df_len lib first_table), second_table)"
  using parts_of_lines_fallback[OF none len first[unfolded m] second[unfolded m]]
    read_parts_unfold[of fs file_path content lib, OF inp ext] lines
  by simp

text \<open>Scenario B of the specification: four lines, split at \<open>m = 2\<close>.\<close>

theorem fallback_split_scenario_B:
  "read_csv_into_parts spec_library (example_file [[''H1'', ''H2''], [''a'', ''b''], [''H3'', ''H4''], [''c'', ''d'']])
     ''/data/report.csv''
   = Inr (Table [''H1'', ''H2''] [[(''H1'', ''a''), (''H2'', ''b'')]], ''1'',
          Table [''H3'', ''H4''] [[(''H3'', ''c''), (''H4'', ''d'')]])"
  using fallback_split [of "example_file [[''H1'', ''H2''], [''a'', ''b''], [''H3'', ''H4''], [''c'', ''d'']]"
      "''/data/report.csv''"
      "join [NL] (map (join [TAB]) [[''H1'', ''H2''], [''a'', ''b''], [''H3'', ''H4''], [''c'', ''d'']])"
      spec_library
      "map (join [TAB]) [[''H1'', ''H2''], [''a'', ''b''], [''H3'', ''H4''], [''c'', ''d'']]"
      2
      "Table [''H1'', ''H2''] [[(''H1'', ''a''), (''H2'', ''b'')]]"
      "Table [''H3'', ''H4''] [[(''H3'', ''c''), (''H4'', ''d'')]]"]
  by (simp add: model_defs)

text \<open>Six lines without a sentinel line, the third with more fields than the two
  before it: the reader refuses the first part, lines 0 to 2, and
  \<open>read_csv_into_parts\<close> fails.\<close>

theorem fallback_fails_on_ragged_part:
  "length (stripped_lines (join [NL] (map (join [TAB])
      [[''H1'', ''H2''], [''a'', ''b''], [''c'', ''d'', ''e'', ''f''], [''H3''], [''x''], [''y'']])))
     = 6
   \<and> find_total_row 0 (stripped_lines (join [NL] (map (join [TAB])
      [[''H1'', ''H2''], [''a'', ''b''], [''c'', ''d'', ''e'', ''f''], [''H3''], [''x''], [''y'']])))
     = None
   \<and> read_csv_into_parts strict_library
       (example_file
          [[''H1'', ''H2''], [''a'', ''b''], [''c'', ''d'', ''e'', ''f''], [''H3''], [''x''], [''y'']])
       ''/data/report.csv''
     = Inl (ValueError CannotReadAndSplit)"
  by (simp add: model_defs)

text \<open>
  Claim C3, as amended.  For every file with no non-empty line after stripping,
  \<open>read_csv_into_parts\<close> does not fail: it returns the empty data frame, the string
  \<open>0\<close> and the empty data frame.  On the same input \<open>split_broken_csv\<close> raises the
  \<open>ValueError\<close> of a missing \<open>Total_Rows\<close> line.
\<close>

theorem empty_input_result:
  assumes inp: "fs file_path = Some (TextFile content)"
    and ext: "lower (splitext_ext lib file_path) \<in> {''.csv'', ''.txt''}"
    and empty: "stripped_lines content = []"
  shows "read_csv_into_parts lib fs file_path = Inr (empty_df lib, ''0'', empty_df lib)
       \<and> split_broken_csv lib fs file_path = Inl (ValueError TotalRowsNotFound)"
  using parts_of_lines_degenerate[of "[]" lib]
    read_parts_unfold[of fs file_path content lib, OF inp ext]
    split_broken_csv_no_sentinel[of fs file_path content lib] inp empty
  by simp

text \<open>A file of blank lines.\<close>

theorem empty_input_result_blank_lines:
  "read_csv_into_parts spec_library (example_file [[''  ''], [], [''   '', '' '']])
     ''/data/report.csv''
     = Inr (Table [] [], ''0'', Table [] [])
   \<and> split_broken_csv spec_library (example_file [[''  ''], [], [''   '', '' '']])
       ''/data/report.csv''
     = Inl (ValueError TotalRowsNotFound)"
  using empty_input_result [of "example_file [[''  ''], [], [''   '', '' '']]"
      "''/data/report.csv''"
      "join [NL] (map (join [TAB]) [[''  ''], [], [''   '', '' '']])"
      spec_library]
  by (simp add: model_defs)

text \<open>The empty file has no lines, and a result is returned for it.\<close>

theorem empty_file_returns_result:
  "stripped_lines [] = []
   \<and> read_csv_into_parts spec_library (example_file []) ''/data/report.csv''
       = Inr (Table [] [], ''0'', Table [] [])"
  by (simp add: model_defs)

text \<open>
  Claim C4.  For every file whose first line starting with \<open>Total_Rows\<close> has fewer
  than two tab-separated fields, \<open>read_csv_into_parts\<close> fails: the error of reading
  the missing field is caught and raised again as the \<open>ValueError\<close> of the \<open>try\<close>
  block, whatever the table reader does.
\<close>

theorem malformed_sentinel_fails:
  assumes inp: "fs file_path = Some (TextFile content)"
    and ext: "lower (splitext_ext lib file_path) \<in> {''.csv'', ''.txt''}"
    and lines: "lines = stripped_lines content"
    and s: "s < length lines" "startswith (lines ! s) ''Total_Rows''"
      "\<forall>i<s. \<not> startswith (lines ! i) ''Total_Rows''"
    and fields: "length (split_char TAB (lines ! s)) < 2"
  shows "read_csv_into_parts lib fs file_path = Inl (ValueError CannotReadAndSplit)"
  using parts_of_lines_short_sentinel[OF s fields, of lib]
    read_parts_unfold[of fs file_path content lib, OF inp ext] lines
  by auto

text \<open>A sentinel line whose value follows a space instead of a tab.\<close>

theorem malformed_sentinel_fails_space:
  "read_csv_into_parts spec_library (example_file [[''H1'', ''H2''], [''a'', ''b''], [''Total_Rows 2''], [''H3'', ''H4''], [''c'', ''d'']])
     ''/data/report.csv''
   = Inl (ValueError CannotReadAndSplit)"
  using malformed_sentinel_fails [of "example_file [[''H1'', ''H2''], [''a'', ''b''], [''Total_Rows 2''], [''H3'', ''H4''], [''c'', ''d'']]"
      "''/data/report.csv''"
      "join [NL] (map (join [TAB]) [[''H1'', ''H2''], [''a'', ''b''], [''Total_Rows 2''], [''H3'', ''H4''], [''c'', ''d'']])"
      spec_library
      "map (join [TAB]) [[''H1'', ''H2''], [''a'', ''b''], [''Total_Rows 2''], [''H3'', ''H4''], [''c'', ''d'']]"
      2]
  by (simp add: model_defs numeral_2_eq_2 All_less_Suc less_Suc_eq)

text \<open>
  Claim C5, as amended.  For every file whose first line starting with \<open>Total_Rows\<close>
  is the last line and has at least two tab-separated fields, \<open>read_csv_into_parts\<close>
  returns, when the table reader accepts the first part, a result whose second table
  is the empty data frame.
\<close>

theorem sentinel_last_line:
  assumes inp: "fs file_path = Some (TextFile content)"
    and ext: "lower (splitext_ext lib file_path) \<in> {''.csv'', ''.txt''}"
    and lines: "lines = stripped_lines content"
    and s: "s < length lines" "startswith (lines ! s) ''Total_Rows''"
      "\<forall>i<s. \<not> startswith (lines ! i) ''Total_Rows''"
    and last: "s = length lines - 1"
    and fields: "2 \<le> length (split_char TAB (lines ! s))"
    and first: "read_csv lib (part_content (lines ! 0) (slice lines 1 s)) = Inr first_table"
  shows "read_csv_into_parts lib fs file_path =
     Inr (first_table, split_char TAB (lines ! s) ! 1, empty_df lib)"
proof -
  from s(1) last have nolast: "\<not> s + 1 < length lines" by simp
  then have "s + 1 < length lines \<longrightarrow>
       read_csv lib (part_content (lines ! (s + 1)) (slice_from lines (s + 2))) = Inr first_table"
    by simp
  from parts_of_lines_sentinel[OF s fields first this] nolast
  have "parts_of_lines lib lines
          = Inr (first_table, split_char TAB (lines ! s) ! 1, empty_df lib)"
    by simp
  then show ?thesis
    using read_parts_unfold[of fs file_path content lib, OF inp ext] lines by simp
qed

text \<open>A report that ends with its sentinel line.\<close>

theorem sentinel_last_line_example:
  "read_csv_into_parts spec_library (example_file [[''H1'', ''H2''], [''a'', ''b''], [''Total_Rows'', ''1'']])
     ''/data/report.csv''
   = Inr (Table [''H1'', ''H2''] [[(''H1'', ''a''), (''H2'', ''b'')]], ''1'', Table [] [])"
  using sentinel_last_line [of "example_file [[''H1'', ''H2''], [''a'', ''b''], [''Total_Rows'', ''1'']]"
      "''/data/report.csv''"
      "join [NL] (map (join [TAB]) [[''H1'', ''H2''], [''a'', ''b''], [''Total_Rows'', ''1'']])"
      spec_library
      "map (join [TAB]) [[''H1'', ''H2''], [''a'', ''b''], [''Total_Rows'', ''1'']]"
      2
      "Table [''H1'', ''H2''] [[(''H1'', ''a''), (''H2'', ''b'')]]"]
  by (simp add: model_defs numeral_2_eq_2 All_less_Suc less_Suc_eq)

text \<open>The sentinel line is the last of three lines and has no value: an error.\<close>

theorem sentinel_last_without_value_fails:
  "find_total_row 0 (stripped_lines (join [NL] (map (join [TAB]) [[''H1'', ''H2''], [''a'', ''b''], [''Total_Rows'']]))) = Some 2
   \<and> length (stripped_lines (join [NL] (map (join [TAB]) [[''H1'', ''H2''], [''a'', ''b''], [''Total_Rows'']]))) = 3
   \<and> read_csv_into_parts spec_library (example_file [[''H1'', ''H2''], [''a'', ''b''], [''Total_Rows'']])
        ''/data/report.csv''
      = Inl (ValueError CannotReadAndSplit)"
  by (simp add: model_defs)

text \<open>On a report that ends with a well-formed sentinel line \<open>split_broken_csv\<close>, which
  reads the line after the sentinel line without a bounds check, raises IndexError.\<close>

lemma split_broken_csv_sentinel_last_raises:
  "split_broken_csv spec_library
     (example_file [[''H1'', ''H2''], [''a'', ''b''], [''Total_Rows'', ''1'']])
     ''/data/report.csv''
   = Inl IndexError"
  by (simp add: model_defs)

text \<open>
  Claim C7.  For every file with exactly one stripped non-empty line, not starting
  with \<open>Total_Rows\<close>, \<open>read_csv_into_parts\<close> takes the fallback path with midpoint 0
  and returns the empty data frame, the string \<open>0\<close> and the empty data frame: the
  line is discarded and nothing fails.
\<close>

theorem single_line_degenerate:
  assumes inp: "fs file_path = Some (TextFile content)"
    and ext: "lower (splitext_ext lib file_path) \<in> {''.csv'', ''.txt''}"
    and one: "stripped_lines content = [line]"
    and none: "\<not> startswith line ''Total_Rows''"
  shows "read_csv_into_parts lib fs file_path = Inr (empty_df lib, ''0'', empty_df lib)"
  using parts_of_lines_degenerate[of "[line]" lib] none
    read_parts_unfold[of fs file_path content lib, OF inp ext] one
  by simp

text \<open>A file that holds a header line only.\<close>

theorem single_line_degenerate_header_only:
  "read_csv_into_parts spec_library (example_file [[''H1'', ''H2'']]) ''/data/report.csv''
   = Inr (Table [] [], ''0'', Table [] [])"
  using single_line_degenerate [of "example_file [[''H1'', ''H2'']]"
      "''/data/report.csv''"
      "join [NL] (map (join [TAB]) [[''H1'', ''H2'']])"
      spec_library
      "join [TAB] [''H1'', ''H2'']"]
  by (simp add: model_defs)

text \<open>
  Claim C10.  For every file whose stripped non-empty lines contain no line starting
  with \<open>Total_Rows\<close>, \<open>split_broken_csv\<close> raises the \<open>ValueError\<close> of the missing line
  and returns nothing: it has no midpoint fallback.  \<open>read_csv_into_parts\<close> never
  ends that way, so the two routines disagree on every such file.
\<close>

theorem variants_disagree_without_sentinel:
  assumes inp: "fs file_path = Some (TextFile content)"
    and none: "\<forall>l \<in> set (stripped_lines content). \<not> startswith l ''Total_Rows''"
  shows "split_broken_csv lib fs file_path = Inl (ValueError TotalRowsNotFound)
       \<and> read_csv_into_parts lib fs file_path \<noteq> split_broken_csv lib fs file_path"
proof -
  have a: "split_broken_csv lib fs file_path = Inl (ValueError TotalRowsNotFound)"
    using inp none by (rule split_broken_csv_no_sentinel)
  have "read_csv_into_parts lib fs file_path \<noteq> Inl (ValueError TotalRowsNotFound)"
    using read_csv_into_parts_errors[of lib fs file_path "ValueError TotalRowsNotFound"]
    by auto
  with a show ?thesis by simp
qed

text \<open>Three lines without a sentinel: one routine raises, the other splits.\<close>

theorem variants_disagree_example:
  "split_broken_csv spec_library (example_file [[''H1'', ''H2''], [''a'', ''b''], [''c'', ''d'']])
     ''/data/report.csv''
     = Inl (ValueError TotalRowsNotFound)
   \<and> read_csv_into_parts spec_library (example_file [[''H1'', ''H2''], [''a'', ''b''], [''c'', ''d'']])
       ''/data/report.csv''
     = Inr (Table [''H1'', ''H2''] [], ''0'', Table [''a'', ''b''] [[(''a'', ''c''), (''b'', ''d'')]])"
  using variants_disagree_without_sentinel [of "example_file [[''H1'', ''H2''], [''a'', ''b''], [''c'', ''d'']]"
      "''/data/report.csv''"
      "join [NL] (map (join [TAB]) [[''H1'', ''H2''], [''a'', ''b''], [''c'', ''d'']])"
      spec_library]
  by (simp add: model_defs)

section \<open>Properties of \<open>split_file_by_keyword\<close>\<close>

text \<open>
  Claim C8, as amended.  For every text and every non-empty keyword that occurs in it,
  when both output paths can be opened for writing, \<open>split_file_by_keyword\<close> writes
  the text before the first occurrence of the keyword to the first output file and the
  text after it to the second, the keyword itself dropped, and returns the absolute
  paths of the two files.  Before, keyword and after make up the text again, the
  keyword does not occur in the part before, and no occurrence starts earlier.
\<close>

theorem split_file_by_keyword_found:
  assumes inp: "fs input_path = Some (TextFile content)"
    and kw: "keyword \<noteq> []"
    and occ: "sublist keyword content"
    and w1: "writable lib fs output1_path"
    and w2: "writable lib fs output2_path"
  shows "\<exists>before after.
           content = before @ keyword @ after
         \<and> \<not> sublist keyword before
         \<and> (\<forall>b a. content = b @ keyword @ a \<longrightarrow> length before \<le> length b)
         \<and> split_file_by_keyword lib fs input_path keyword output1_path output2_path
             = ((Some (abspath lib output1_path), Some (abspath lib output2_path)),
                fs(output1_path \<mapsto> TextFile before, output2_path \<mapsto> TextFile after))"
proof -
  from occ obtain i where i: "find_str content keyword = Some i"
    using find_str_None[of content keyword] by auto
  let ?before = "take i content" and ?after = "drop (i + length keyword) content"
  have "content = ?before @ keyword @ ?after"
    using find_str_Some[OF i] by simp
  moreover have "\<not> sublist keyword ?before"
    using first_occurrence(1)[OF i kw] .
  moreover have "\<forall>b a. content = b @ keyword @ a \<longrightarrow> length ?before \<le> length b"
    using first_occurrence(2)[OF i kw] by auto
  moreover have "split_file_by_keyword lib fs input_path keyword output1_path output2_path
             = ((Some (abspath lib output1_path), Some (abspath lib output2_path)),
                fs(output1_path \<mapsto> TextFile ?before, output2_path \<mapsto> TextFile ?after))"
  proof -
    let ?fs1 = "fs(output1_path \<mapsto> TextFile ?before)"
    have a: "open_write lib fs output1_path ?before = Inr ?fs1"
      using w1 by (rule open_write_writable)
    have "writable lib ?fs1 output2_path"
      using w2 by (simp add: writable_def)
    then have b: "open_write lib ?fs1 output2_path ?after
                    = Inr (?fs1(output2_path \<mapsto> TextFile ?after))"
      by (rule open_write_writable)
    show ?thesis
      using inp kw i
      by (simp add: split_file_by_keyword_def split_file_body_def open_read_def contains_def
          split_once_def item_def a b)
  qed
  ultimately show ?thesis by blast
qed

text \<open>Scenario C of the specification.\<close>

theorem split_file_by_keyword_scenario_C:
  "sublist ''keyword'' ''AAAkeywordBBB''
   \<and> split_file_by_keyword spec_library (keyword_file ''AAAkeywordBBB'') ''/data/in.txt''
        ''keyword'' ''/data/before.csv'' ''/data/after.csv''
      = ((Some ''/data/before.csv'', Some ''/data/after.csv''),
         (keyword_file ''AAAkeywordBBB'')
           (''/data/before.csv'' \<mapsto> TextFile ''AAA'', ''/data/after.csv'' \<mapsto> TextFile ''BBB''))"
  using split_file_by_keyword_found [of "keyword_file ''AAAkeywordBBB''" "''/data/in.txt''"
      "''AAAkeywordBBB''" "''keyword''" spec_library "''/data/before.csv''"
      "''/data/after.csv''"]
  by (simp add: model_defs sublist_code)

text \<open>An output path in a directory that does not exist: opening it raises, the
  exception is caught, and \<open>(None, None)\<close> is returned.  When it is the second path,
  the first file has been written by then.\<close>

lemma split_file_by_keyword_missing_directory:
  "split_file_by_keyword spec_library (keyword_file ''AAAkeywordBBB'') ''/data/in.txt''
     ''keyword'' ''/missing/before.csv'' ''/data/after.csv''
     = ((None, None), keyword_file ''AAAkeywordBBB'')
   \<and> split_file_by_keyword spec_library (keyword_file ''AAAkeywordBBB'') ''/data/in.txt''
       ''keyword'' ''/data/before.csv'' []
     = ((None, None),
        (keyword_file ''AAAkeywordBBB'')(''/data/before.csv'' \<mapsto> TextFile ''AAA''))"
  by (simp add: model_defs)

text \<open>The empty keyword occurs in every text, and the code finds it there; the split
  raises, the exception is caught, and nothing is split.\<close>

theorem empty_keyword_no_split:
  "sublist [] ''AAABBB'' \<and> contains ''AAABBB'' []
   \<and> split_file_by_keyword spec_library (keyword_file ''AAABBB'') ''/data/in.txt''
        [] ''/data/before.csv'' ''/data/after.csv''
      = ((None, None), keyword_file ''AAABBB'')"
  by (simp add: model_defs)

text \<open>
  Claim C9.  For every text and keyword such that the keyword does not occur in the
  text, \<open>split_file_by_keyword\<close> returns the pair \<open>(None, None)\<close>, its result for
  "nothing was split", raises nothing and leaves the files as they are.
\<close>

theorem split_file_by_keyword_absent:
  assumes inp: "fs input_path = Some (TextFile content)"
    and absent: "\<not> sublist keyword content"
  shows "split_file_by_keyword lib fs input_path keyword output1_path output2_path
           = ((None, None), fs)"
  using inp absent
  by (simp add: split_file_by_keyword_def split_file_body_def open_read_def contains_sublist)

text \<open>Scenario D of the specification.\<close>

theorem split_file_by_keyword_scenario_D:
  "\<not> sublist ''zzz'' ''AAABBB''
   \<and> split_file_by_keyword spec_library (keyword_file ''AAABBB'') ''/data/in.txt''
        ''zzz'' ''/data/before.csv'' ''/data/after.csv''
      = ((None, None), keyword_file ''AAABBB'')"
  using split_file_by_keyword_absent [of "keyword_file ''AAABBB''" "''/data/in.txt''"
      "''AAABBB''" "''zzz''" spec_library "''/data/before.csv''" "''/data/after.csv''"]
  by (simp add: model_defs sublist_code)

section \<open>Reading a reconstituted report again\<close>

lemma startswith_append: "startswith (p @ r) p"
  by (induction p) auto

lemma spec_parts_of_lines:
  assumes clean: "\<forall>l \<in> set lines. clean_line l"
    and s: "s < length lines" "startswith (lines ! s) ''Total_Rows''"
      "\<forall>i<s. \<not> startswith (lines ! i) ''Total_Rows''"
    and fields: "2 \<le> length (split_char TAB (lines ! s))"
  shows "parts_of_lines spec_library lines =
     Inr (table_of_lines (lines ! 0) (slice lines 1 s),
          split_char TAB (lines ! s) ! 1,
          if s + 1 < length lines
          then table_of_lines (lines ! (s + 1)) (slice_from lines (s + 2))
          else Table [] [])"
proof -
  have "0 < length lines" using s(1) by (cases lines) auto
  then have c0: "clean_line (lines ! 0)"
    using clean nth_mem[of 0 lines] by simp
  have c1: "\<forall>d \<in> set (slice lines 1 s). clean_line d"
    using clean by (auto simp: slice_def dest: in_set_dropD in_set_takeD)
  have first: "read_csv spec_library (part_content (lines ! 0) (slice lines 1 s))
                 = Inr (table_of_lines (lines ! 0) (slice lines 1 s))"
    using tokenize_part_content[OF c0 c1] by (simp add: spec_library_def)
  have second: "s + 1 < length lines \<longrightarrow>
      read_csv spec_library (part_content (lines ! (s + 1)) (slice_from lines (s + 2)))
        = Inr (table_of_lines (lines ! (s + 1)) (slice_from lines (s + 2)))"
  proof
    assume lt: "s + 1 < length lines"
    have a: "clean_line (lines ! (s + 1))"
      using clean lt by (simp add: nth_mem)
    have b: "\<forall>d \<in> set (slice_from lines (s + 2)). clean_line d"
      using clean by (auto simp: slice_from_def dest: in_set_dropD)
    show "read_csv spec_library (part_content (lines ! (s + 1)) (slice_from lines (s + 2)))
        = Inr (table_of_lines (lines ! (s + 1)) (slice_from lines (s + 2)))"
      using tokenize_part_content[OF a b] by (simp add: spec_library_def)
  qed
  show ?thesis
    using parts_of_lines_sentinel[OF s fields first second]
    by (simp add: spec_library_def)
qed

text \<open>
  Claim C6, as amended.  Tables are read and written as the specification describes.
  Let the file have a sentinel line, the first of them at an index \<open>s > 0\<close>, let
  \<open>read_csv_into_parts\<close> succeed on it with a sentinel value that is not empty and does
  not end in white space, and let no data line have more tab-separated fields than the
  header of its table.  Then writing the result back, as the lines of the first table,
  the line \<open>Total_Rows\<close>, tab, value, and the lines of the second table, and reading
  that text again returns the same two tables and the same sentinel value.
\<close>

theorem recover_reconstituted:
  assumes inp: "fs file_path = Some (TextFile content)"
    and ext: "lower (splitext_ext spec_library file_path) \<in> {''.csv'', ''.txt''}"
    and lines: "lines = stripped_lines content"
    and s: "s < length lines" "startswith (lines ! s) ''Total_Rows''"
      "\<forall>i<s. \<not> startswith (lines ! i) ''Total_Rows''"
    and pos: "0 < s"
    and ok: "read_csv_into_parts spec_library fs file_path
               = Inr (first_table, sentinel_value, second_table)"
    and val: "sentinel_value \<noteq> []" "\<not> isspace (last sentinel_value)"
    and arity1: "\<forall>i. 0 < i \<and> i < s \<longrightarrow>
        length (split_char TAB (lines ! i)) \<le> length (split_char TAB (lines ! 0))"
    and arity2: "\<forall>i. s + 1 < i \<and> i < length lines \<longrightarrow>
        length (split_char TAB (lines ! i)) \<le> length (split_char TAB (lines ! (s + 1)))"
  shows "read_csv_into_parts spec_library
           (fs(file_path \<mapsto> TextFile (reconstitute (first_table, sentinel_value, second_table))))
           file_path
         = Inr (first_table, sentinel_value, second_table)"
proof -
  let ?h = "lines ! 0" and ?sl = "lines ! s"
  let ?t1 = "table_of_lines ?h (slice lines 1 s)"
  let ?t2 = "if s + 1 < length lines
             then table_of_lines (lines ! (s + 1)) (slice_from lines (s + 2)) else Table [] []"
  let ?v = "split_char TAB ?sl ! 1"
  have clean: "\<forall>l \<in> set lines. clean_line l"
    using lines stripped_lines_clean by simp
  have fields: "2 \<le> length (split_char TAB ?sl)"
  proof (rule ccontr)
    assume "\<not> 2 \<le> length (split_char TAB ?sl)"
    then have "length (split_char TAB ?sl) < 2" by simp
    from parts_of_lines_short_sentinel[OF s this, of spec_library]
    obtain e where "parts_of_lines spec_library lines = Inl e" by blast
    then have "read_csv_into_parts spec_library fs file_path = Inl (ValueError CannotReadAndSplit)"
      using read_parts_unfold[of fs file_path content spec_library, OF inp ext] lines by simp
    with ok show False by simp
  qed
  have run1: "parts_of_lines spec_library lines = Inr (?t1, ?v, ?t2)"
    using spec_parts_of_lines[OF clean s fields] .
  then have "read_csv_into_parts spec_library fs file_path = Inr (?t1, ?v, ?t2)"
    using read_parts_unfold[of fs file_path content spec_library, OF inp ext] lines by simp
  with ok have res: "first_table = ?t1" "sentinel_value = ?v" "second_table = ?t2"
    by simp_all

  let ?sl' = "''Total_Rows'' @ [TAB] @ ?v"
  let ?L' = "lines[s := ?sl']"

  have tk: "take s lines = ?h # slice lines 1 s"
    using pos s(1) by (cases lines; cases s) (auto simp: slice_def)
  have "\<forall>d \<in> set (slice lines 1 s).
          length (split_char TAB d) \<le> length (split_char TAB ?h)"
  proof
    fix d assume "d \<in> set (slice lines 1 s)"
    then obtain j where j: "j < length (slice lines 1 s)" "d = slice lines 1 s ! j"
      by (auto simp: in_set_conv_nth)
    then have "j + 1 < s" "d = lines ! (j + 1)"
      using s(1) by (auto simp: slice_def)
    with arity1 show "length (split_char TAB d) \<le> length (split_char TAB ?h)" by simp
  qed
  then have ser1: "table_lines first_table = take s lines"
    using table_lines_table_of_lines[of "slice lines 1 s" ?h] res(1) tk by simp
  have ser2: "table_lines second_table = drop (Suc s) lines"
  proof (cases "s + 1 < length lines")
    case True
    have "\<forall>d \<in> set (slice_from lines (s + 2)).
            length (split_char TAB d) \<le> length (split_char TAB (lines ! (s + 1)))"
    proof
      fix d assume "d \<in> set (slice_from lines (s + 2))"
      then obtain j where j: "j < length (slice_from lines (s + 2))"
          "d = slice_from lines (s + 2) ! j"
        by (auto simp: in_set_conv_nth)
      then have "s + 2 + j < length lines" "d = lines ! (s + 2 + j)"
        by (auto simp: slice_from_def)
      with arity2 show "length (split_char TAB d) \<le> length (split_char TAB (lines ! (s + 1)))"
        by simp
    qed
    then have "table_lines second_table = lines ! (s + 1) # slice_from lines (s + 2)"
      using table_lines_table_of_lines[of "slice_from lines (s + 2)" "lines ! (s + 1)"]
        res(3) True by simp
    also have "\<dots> = drop (Suc s) lines"
      using True Cons_nth_drop_Suc[of "Suc s" lines] by (simp add: slice_from_def)
    finally show ?thesis .
  next
    case False
    then show ?thesis using res(3) by (simp add: table_lines_def)
  qed
  have recon: "reconstitute (first_table, sentinel_value, second_table) = join [NL] ?L'"
    using ser1 ser2 res(2) s(1) by (simp add: reconstitute_def upd_conv_take_nth_drop)

  have v_in: "?v \<in> set (split_char TAB ?sl)"
    using fields by (intro nth_mem) simp
  have "clean_line ?sl" using clean s(1) by simp
  then have "NL \<notin> set ?v"
    using split_char_subset[OF v_in] by (auto simp: clean_line_def)
  then have "clean_line ?sl'"
    using val res(2) by (simp add: clean_line_def NL_def TAB_def isspace_def)
  then have clean': "\<forall>l \<in> set ?L'. clean_line l"
    using clean set_update_subset_insert[of lines s ?sl'] by auto
  have lines': "stripped_lines (reconstitute (first_table, sentinel_value, second_table)) = ?L'"
    using stripped_lines_join[OF clean'] recon by simp

  have s': "s < length ?L'" "startswith (?L' ! s) ''Total_Rows''"
      "\<forall>i<s. \<not> startswith (?L' ! i) ''Total_Rows''"
    using s startswith_append[of "''Total_Rows''" "[TAB] @ ?v"] by simp_all
  have "TAB \<notin> set ?v" using v_in by (rule split_char_fields)
  then have "split_char TAB ?v = [?v]" by (rule split_char_no_sep)
  moreover have "split_char TAB (''Total_Rows'' @ TAB # ?v) = ''Total_Rows'' # split_char TAB ?v"
    by (rule split_char_append) (simp add: TAB_def)
  ultimately have sp: "split_char TAB (?L' ! s) = [''Total_Rows'', ?v]"
    using s(1) by simp
  then have fields': "2 \<le> length (split_char TAB (?L' ! s))" by simp
  have same: "?L' ! 0 = ?h" "slice ?L' 1 s = slice lines 1 s"
      "?L' ! (s + 1) = lines ! (s + 1)" "slice_from ?L' (s + 2) = slice_from lines (s + 2)"
    using pos by (simp_all add: slice_def slice_from_def)
  have "parts_of_lines spec_library ?L' = Inr (?t1, ?v, ?t2)"
    using spec_parts_of_lines[OF clean' s' fields'] sp
    by (simp only: same length_list_update) simp
  then show ?thesis
    using read_parts_unfold[of "fs(file_path \<mapsto>
              TextFile (reconstitute (first_table, sentinel_value, second_table)))"
            file_path "reconstitute (first_table, sentinel_value, second_table)" spec_library]
      ext lines' res
    by simp
qed

text \<open>Scenario A, written back and read again.\<close>

theorem recover_reconstituted_scenario_A:
  "read_csv_into_parts spec_library
     ((example_file [[''H1'', ''H2''], [''a'', ''b''], [''Total_Rows'', ''2''], [''H3'', ''H4''], [''c'', ''d'']])
        (''/data/report.csv'' \<mapsto> TextFile (reconstitute
       (Table [''H1'', ''H2''] [[(''H1'', ''a''), (''H2'', ''b'')]], ''2'',
        Table [''H3'', ''H4''] [[(''H3'', ''c''), (''H4'', ''d'')]]))))
     ''/data/report.csv''
   = Inr (Table [''H1'', ''H2''] [[(''H1'', ''a''), (''H2'', ''b'')]], ''2'',
        Table [''H3'', ''H4''] [[(''H3'', ''c''), (''H4'', ''d'')]])"
  using recover_reconstituted [of "example_file [[''H1'', ''H2''], [''a'', ''b''], [''Total_Rows'', ''2''], [''H3'', ''H4''], [''c'', ''d'']]"
      "''/data/report.csv''"
      "join [NL] (map (join [TAB]) [[''H1'', ''H2''], [''a'', ''b''], [''Total_Rows'', ''2''], [''H3'', ''H4''], [''c'', ''d'']])"
      "map (join [TAB]) [[''H1'', ''H2''], [''a'', ''b''], [''Total_Rows'', ''2''], [''H3'', ''H4''], [''c'', ''d'']]"
      2
      "Table [''H1'', ''H2''] [[(''H1'', ''a''), (''H2'', ''b'')]]"
      "''2''"
      "Table [''H3'', ''H4''] [[(''H3'', ''c''), (''H4'', ''d'')]]"]
  by (auto simp add: model_defs numeral_2_eq_2 All_less_Suc less_Suc_eq)

text \<open>A report whose first line is the sentinel line: the first table has that line as
  its header, the reconstituted text has the line twice, and the second reading takes
  the second copy for the header of the second table.\<close>

theorem sentinel_first_line_not_idempotent:
  "read_csv_into_parts spec_library (example_file [[''Total_Rows'', ''5''], [''H3'', ''H4''], [''c'', ''d'']])
     ''/data/report.csv''
     = Inr (Table [''Total_Rows'', ''5''] [], ''5'',
        Table [''H3'', ''H4''] [[(''H3'', ''c''), (''H4'', ''d'')]])
   \<and> read_csv_into_parts spec_library
       ((example_file [[''Total_Rows'', ''5''], [''H3'', ''H4''], [''c'', ''d'']])
          (''/data/report.csv'' \<mapsto> TextFile (reconstitute
       (Table [''Total_Rows'', ''5''] [], ''5'',
        Table [''H3'', ''H4''] [[(''H3'', ''c''), (''H4'', ''d'')]]))))
       ''/data/report.csv''
     = Inr (Table [''Total_Rows'', ''5''] [], ''5'',
            Table [''Total_Rows'', ''5'']
              [[(''Total_Rows'', ''H3''), (''5'', ''H4'')], [(''Total_Rows'', ''c''), (''5'', ''d'')]])"
  by (simp add: model_defs)

text \<open>The other two conditions are needed as well: an empty sentinel value is lost when
  the reconstituted sentinel line is stripped, and a data line longer than its header
  is cut, here after a field that ends in a space.\<close>

lemma empty_sentinel_value_not_idempotent:
  "read_csv_into_parts spec_library
     (example_file [[''H1''], [''a''], [''Total_Rows'', [], ''x'']]) ''/data/report.csv''
     = Inr (Table [''H1''] [[(''H1'', ''a'')]], [], Table [] [])
   \<and> read_csv_into_parts spec_library
       ((example_file [[''H1''], [''a''], [''Total_Rows'', [], ''x'']])
          (''/data/report.csv'' \<mapsto> TextFile (reconstitute
             (Table [''H1''] [[(''H1'', ''a'')]], [], Table [] []))))
       ''/data/report.csv''
     = Inl (ValueError CannotReadAndSplit)"
  by (simp add: model_defs)

lemma long_data_line_not_idempotent:
  "read_csv_into_parts spec_library
     (example_file [[''H1''], [''a '', ''b''], [''Total_Rows'', ''1'']]) ''/data/report.csv''
     = Inr (Table [''H1''] [[(''H1'', ''a '')]], ''1'', Table [] [])
   \<and> read_csv_into_parts spec_library
       ((example_file [[''H1''], [''a '', ''b''], [''Total_Rows'', ''1'']])
          (''/data/report.csv'' \<mapsto> TextFile (reconstitute
             (Table [''H1''] [[(''H1'', ''a '')]], ''1'', Table [] []))))
       ''/data/report.csv''
     = Inr (Table [''H1''] [[(''H1'', ''a'')]], ''1'', Table [] [])"
  by (simp add: model_defs)

end
